theory Spec2Isabelle
  imports Complex_Main "HOL-Library.Word"
begin

section \<open>Constants of pid\_controller\_server.c\<close>

text \<open>
  The target is a 32-bit microcontroller: \<open>char\<close> is one byte, \<open>float\<close> is an IEEE
  single of four bytes and \<open>int\<close> is a 32-bit two's complement integer.
\<close>

type_synonym byte = "8 word"

definition sizeof_char :: nat where
  "sizeof_char = 1"

definition sizeof_float :: nat where
  "sizeof_float = 4"

text \<open>\<^verbatim>\<open>#define REQUEST_RESPONSE_BUF_SIZE (sizeof(char)+2*(sizeof(float)))\<close>\<close>

definition REQUEST_RESPONSE_BUF_SIZE :: nat where
  "REQUEST_RESPONSE_BUF_SIZE = sizeof_char + 2 * sizeof_float"

definition SERVER_TASK_SLEEP_TIME_MS :: nat where
  "SERVER_TASK_SLEEP_TIME_MS = 20"

definition NO_MSG_TIMEOUT_SECONDS :: real where
  "NO_MSG_TIMEOUT_SECONDS = 15.0"

text \<open>
  \<^verbatim>\<open>int const no_msg_cnt_warn = NO_MSG_TIMEOUT_SECONDS*(1000.0/SERVER_TASK_SLEEP_TIME_MS);\<close>
  The product is computed in \<open>double\<close> (exactly, for these constants) and truncated to
  \<open>int\<close> by the initialisation.
\<close>

definition no_msg_cnt_warn :: "32 word" where
  "no_msg_cnt_warn =
     word_of_int \<lfloor>NO_MSG_TIMEOUT_SECONDS * (1000.0 / real SERVER_TASK_SLEEP_TIME_MS)\<rfloor>"

section \<open>The world outside the server task\<close>

text \<open>
  \<open>pid_data\<close> stands for the shared PID data behind \<open>p_pid_data\<close> (declared in pid.h),
  \<open>stream_on\<close> for whether the telemetry task is pushing measurements.
\<close>

record 'p world =
  pid_data :: 'p
  stream_on :: bool

text \<open>
  Modelled from the spec: \<open>stream_stop\<close> is declared in commandmanager.h and its body is
  not part of the sources at hand; the specification says that it disables the
  telemetry pusher.
\<close>

definition stream_stop :: "'p world \<Rightarrow> 'p world" where
  "stream_stop w = w\<lparr>stream_on := False\<rparr>"

text \<open>
  \<open>process_request\<close> is declared in commandmanager.h as well. It receives the address of
  the buffer only, rewrites the buffer in place and may change anything in the outside
  world; it is a parameter of the model.
\<close>

type_synonym 'p request_handler = "byte list \<Rightarrow> 'p world \<Rightarrow> byte list \<times> 'p world"

definition in_place :: "'p request_handler \<Rightarrow> bool" where
  "in_place pr \<longleftrightarrow> (\<forall>b w. length (fst (pr b w)) = length b)"

section \<open>Socket calls\<close>

datatype action =
    Socket int
  | Bind int
  | StreamStop
  | Ioctl
  | Recvfrom int nat int
  | RecvfromFailed int
  | ProcessRequest "byte list"
  | Sendto int nat "byte list"
  | VTaskDelay nat
  | Shutdown int
  | Close int
  | VTaskDelete

text \<open>
  What one pass of the inner loop finds on the socket: nothing (\<open>data_len \<le> 0\<close>), a
  datagram from a peer address, or a failing \<open>recvfrom\<close>; \<open>Ioctl\<close> in the trace is the
  \<open>FIONREAD\<close> query that finds it out. In the trace \<open>Recvfrom\<close> is a call of \<open>recvfrom\<close>
  that returned a length, with the socket, the peer address and the length, and
  \<open>RecvfromFailed\<close> a call that returned an error. A failing \<open>recvfrom\<close> leaves
  the inner loop, so the event carries what the next call of \<open>socket\<close> returns.
\<close>

datatype event =
    NoData
  | Datagram nat "byte list"
  | RecvError int

text \<open>
  \<open>recvfrom(sock, buf, n, ...)\<close> on a datagram socket copies the first \<open>n\<close> bytes of the
  datagram at most to the start of the buffer and returns how many it copied.
\<close>

definition recvfrom :: "byte list \<Rightarrow> nat \<Rightarrow> byte list \<Rightarrow> int \<times> byte list" where
  "recvfrom b n payload =
     (let len = min (length payload) n
      in (int len, take len payload @ drop len b))"

definition memset :: "byte list \<Rightarrow> byte \<Rightarrow> nat \<Rightarrow> byte list" where
  "memset b c n = replicate n c @ drop n b"

section \<open>udp\_server\_task\<close>

record 'p task =
  buf :: "byte list"
  sock :: int
  sourceAddr :: nat
  no_msg_cnt :: "32 word"
  is_stream_stop :: bool
  deleted :: bool
  world :: "'p world"
  trace :: "action list"

text \<open>Lines 132 to 136: the suspension check that opens every pass of the inner loop.\<close>

definition suspension_check :: "'p task \<Rightarrow> 'p task" where
  "suspension_check s =
     (if no_msg_cnt_warn \<le>s no_msg_cnt s \<and> \<not> is_stream_stop s
      then s\<lparr>world := stream_stop (world s),
              is_stream_stop := True,
              trace := trace s @ [StreamStop]\<rparr>
      else s)"

text \<open>Lines 188 to 193: no data is available.\<close>

definition no_data :: "'p task \<Rightarrow> 'p task" where
  "no_data s =
     (let s1 = (if \<not> is_stream_stop s then s\<lparr>no_msg_cnt := no_msg_cnt s + 1\<rparr> else s)
      in s1\<lparr>trace := trace s1 @ [VTaskDelay SERVER_TASK_SLEEP_TIME_MS]\<rparr>)"

text \<open>Lines 196 to 200: after the inner loop was left.\<close>

definition socket_teardown :: "'p task \<Rightarrow> 'p task" where
  "socket_teardown s =
     (if sock s \<noteq> - 1
      then s\<lparr>trace := trace s @ [Shutdown (sock s), Close (sock s)]\<rparr>
      else s)"

text \<open>
  Lines 113 to 128: the head of the outer loop. \<open>r\<close> is what \<open>socket\<close> returns; a failing
  \<open>bind\<close> is only logged.
\<close>

definition socket_setup :: "int \<Rightarrow> 'p task \<Rightarrow> 'p task" where
  "socket_setup r s =
     (if r < 0
      then s\<lparr>sock := r, deleted := True, trace := trace s @ [Socket r, VTaskDelete]\<rparr>
      else s\<lparr>sock := r, no_msg_cnt := 0, is_stream_stop := False,
              trace := trace s @ [Socket r, Bind r]\<rparr>)"

text \<open>Lines 152 to 185: data is available and \<open>recvfrom\<close> is called.\<close>

definition data_received ::
  "'p request_handler \<Rightarrow> nat \<Rightarrow> byte list \<Rightarrow> 'p task \<Rightarrow> 'p task" where
  "data_received pr a payload s =
     (let (len, b1) = recvfrom (buf s) REQUEST_RESPONSE_BUF_SIZE payload;
          (b2, w2) = pr b1 (world s)
      in s\<lparr>buf := memset b2 0 REQUEST_RESPONSE_BUF_SIZE,
            sourceAddr := a,
            no_msg_cnt := 0,
            is_stream_stop := False,
            world := w2,
            trace := trace s @
              [Recvfrom (sock s) a len,
               ProcessRequest b1,
               Sendto (sock s) a (take REQUEST_RESPONSE_BUF_SIZE b2)]\<rparr>)"

text \<open>One pass of the inner loop, lines 130 to 194, and the restart that follows a break.\<close>

definition loop_pass :: "'p request_handler \<Rightarrow> event \<Rightarrow> 'p task \<Rightarrow> 'p task" where
  "loop_pass pr ev s =
     (let s1 = suspension_check s;
          s2 = s1\<lparr>trace := trace s1 @ [Ioctl]\<rparr>
      in case ev of
           NoData \<Rightarrow> no_data s2
         | Datagram a payload \<Rightarrow> data_received pr a payload s2
         | RecvError r \<Rightarrow>
             socket_setup r
               (socket_teardown (s2\<lparr>trace := trace s2 @ [RecvfromFailed (sock s2)]\<rparr>)))"

text \<open>
  The task from its entry: \<open>buf\<close> is an uninitialised local array, so its first contents
  \<open>b0\<close> are arbitrary; the globals \<open>sock\<close> and \<open>sourceAddr\<close> start zeroed; \<open>r\<close> is what
  the first call of \<open>socket\<close> returns.
\<close>

definition task_entry :: "byte list \<Rightarrow> 'p world \<Rightarrow> int \<Rightarrow> 'p task" where
  "task_entry b0 w r =
     socket_setup r
       \<lparr>buf = b0, sock = 0, sourceAddr = 0, no_msg_cnt = 0, is_stream_stop = False,
        deleted = False, world = w, trace = []\<rparr>"

text \<open>The task run against a finite sequence of socket events; nothing runs after \<open>vTaskDelete\<close>.\<close>

fun udp_server_task :: "'p request_handler \<Rightarrow> event list \<Rightarrow> 'p task \<Rightarrow> 'p task" where
  "udp_server_task pr [] s = s"
| "udp_server_task pr (ev # evs) s =
     (if deleted s then s else udp_server_task pr evs (loop_pass pr ev s))"

section \<open>Reading a run\<close>

text \<open>
  The datagrams, with their source addresses, that a sequence of socket events delivers
  to a running task: nothing is received any more once \<open>socket\<close> has failed.
\<close>

fun received :: "event list \<Rightarrow> (nat \<times> byte list) list" where
  "received [] = []"
| "received (NoData # evs) = received evs"
| "received (Datagram a payload # evs) = (a, payload) # received evs"
| "received (RecvError r # evs) = (if r < 0 then [] else received evs)"

text \<open>The replies in a trace, each with its destination, in the order they were sent.\<close>

fun replies :: "action list \<Rightarrow> (nat \<times> byte list) list" where
  "replies [] = []"
| "replies (Sendto k a m # tr) = (a, m) # replies tr"
| "replies (x # tr) = replies tr"

text \<open>The buffers that were handed to \<open>process_request\<close>, in order.\<close>

fun requests :: "action list \<Rightarrow> byte list list" where
  "requests [] = []"
| "requests (ProcessRequest b # tr) = b # requests tr"
| "requests (x # tr) = requests tr"

text \<open>How often \<open>stream_stop\<close> was called.\<close>

fun stream_stops :: "action list \<Rightarrow> nat" where
  "stream_stops [] = 0"
| "stream_stops (StreamStop # tr) = Suc (stream_stops tr)"
| "stream_stops (x # tr) = stream_stops tr"

text \<open>A datagram cut to the frame size and filled up with zero bytes.\<close>

definition zero_padded :: "byte list \<Rightarrow> byte list" where
  "zero_padded payload =
     take REQUEST_RESPONSE_BUF_SIZE payload @
     replicate (REQUEST_RESPONSE_BUF_SIZE - length payload) 0"

text \<open>
  A request handler to run the task against: it answers with the request unchanged and
  keeps the request as the PID data, leaving the telemetry switch alone.
\<close>

definition sample_handler :: "(byte list) request_handler" where
  "sample_handler b w = (b, w\<lparr>pid_data := b\<rparr>)"

definition sample_world :: "(byte list) world" where
  "sample_world = \<lparr>pid_data = [], stream_on = True\<rparr>"

section \<open>The PID engine\<close>

text \<open>
  Modelled from the spec: pid.h and the functions behind it (\<open>PID_Init\<close> and the control
  step) are not part of the sources at hand. The controller state follows the
  specification's data model, with the specification's \<open>float\<close> fields taken as real
  numbers.
\<close>

record ControllerState =
  setpoint :: real
  kp :: real
  ki :: real
  kd :: real
  integral_accumulator :: real
  previous_error :: real
  integral_min :: real
  integral_max :: real
  output_min :: real
  output_max :: real
  last_output :: real
  last_measurement :: real

text \<open>
  Modelled from the spec: the error kind that a rejected call reports; its declaration is
  missing with pid.h.
\<close>

datatype pid_error = InvalidConfiguration

text \<open>
  Modelled from the spec: the clamp of a value to a pair of limits, whose code is missing.
\<close>

definition clamp :: "real \<Rightarrow> real \<Rightarrow> real \<Rightarrow> real" where
  "clamp x lo hi = (if x < lo then lo else if hi < x then hi else x)"

text \<open>
  Modelled from the spec: the control step, whose code is missing. The error is the
  setpoint minus the measurement; the accumulator takes the error times \<open>dt\<close> and is
  clamped to the integral limits; the derivative is the change of the error over \<open>dt\<close>;
  the output is the weighted sum, clamped to the output limits. A non-positive \<open>dt\<close> is
  rejected and the state is retained.
\<close>

definition step ::
  "ControllerState \<Rightarrow> real \<Rightarrow> real \<Rightarrow> pid_error + (ControllerState \<times> real)" where
  "step s measurement dt =
     (if dt \<le> 0 then Inl InvalidConfiguration
      else
        let err = setpoint s - measurement;
            acc = clamp (integral_accumulator s + err * dt) (integral_min s) (integral_max s);
            derivative = (err - previous_error s) / dt;
            raw_output = kp s * err + ki s * acc + kd s * derivative;
            output = clamp raw_output (output_min s) (output_max s)
        in Inr (s\<lparr>integral_accumulator := acc,
                   previous_error := err,
                   last_output := output,
                   last_measurement := measurement\<rparr>,
                output))"

text \<open>
  Modelled from the spec: a sequence of step calls, each with its measurement and its
  \<open>dt\<close>; a rejected call leaves the state as it was.
\<close>

fun step_calls :: "ControllerState \<Rightarrow> (real \<times> real) list \<Rightarrow> ControllerState" where
  "step_calls s [] = s"
| "step_calls s ((measurement, dt) # calls) =
     (case step s measurement dt of
        Inl e \<Rightarrow> step_calls s calls
      | Inr (s', output) \<Rightarrow> step_calls s' calls)"

text \<open>A controller to run the step against: integral gain 1 and integral limits of 10.\<close>

definition sample_controller :: ControllerState where
  "sample_controller =
     \<lparr>setpoint = 1000, kp = 0, ki = 1, kd = 0, integral_accumulator = 0,
      previous_error = 0, integral_min = - 10, integral_max = 10,
      output_min = - 100, output_max = 100, last_output = 0, last_measurement = 0\<rparr>"

section \<open>Constants and arithmetic\<close>

lemma no_msg_cnt_warn_750: "no_msg_cnt_warn = 750"
  by (simp add: no_msg_cnt_warn_def NO_MSG_TIMEOUT_SECONDS_def SERVER_TASK_SLEEP_TIME_MS_def)

lemma buf_size_9: "REQUEST_RESPONSE_BUF_SIZE = 9"
  by (simp add: REQUEST_RESPONSE_BUF_SIZE_def sizeof_char_def sizeof_float_def)

lemma sint_succ:
  fixes c :: "32 word"
  assumes "0 \<le> sint c" "sint c < 750"
  shows "sint (c + 1) = sint c + 1"
proof -
  have "sint (c + 1) = signed_take_bit 31 (sint c + 1)"
    by (simp add: sint_word_add)
  also have "\<dots> = sint c + 1"
    using assms by (intro signed_take_bit_int_eq_self) simp_all
  finally show ?thesis .
qed

lemma sint_of_nat_small:
  assumes "k \<le> 750"
  shows "sint (of_nat k :: 32 word) = int k"
proof -
  have "sint (of_nat k :: 32 word) = signed_take_bit 31 (int k)"
    using sint_sbintrunc' [where 'a = 32, of "int k"] by simp
  also have "\<dots> = int k"
    using assms by (intro signed_take_bit_int_eq_self) simp_all
  finally show ?thesis .
qed

lemma concat_replicate_snoc:
  "concat (replicate (Suc k) xs) = concat (replicate k xs) @ xs"
  by (induction k) simp_all

section \<open>Runs of the task\<close>

lemma run_deleted: "deleted s \<Longrightarrow> udp_server_task pr evs s = s"
  by (cases evs) simp_all

lemma run_append:
  "udp_server_task pr (xs @ ys) s = udp_server_task pr ys (udp_server_task pr xs s)"
  by (induction xs arbitrary: s) (simp_all add: run_deleted)

lemma run_snoc:
  "udp_server_task pr (xs @ [e]) s =
     (let t = udp_server_task pr xs s in if deleted t then t else loop_pass pr e t)"
  by (simp add: run_append Let_def)

subsection \<open>Passes that find no data\<close>

lemma idle_pass_below:
  assumes "\<not> is_stream_stop s" "sint (no_msg_cnt s) < 750"
  shows "loop_pass pr NoData s =
           s\<lparr>no_msg_cnt := no_msg_cnt s + 1,
              trace := trace s @ [Ioctl, VTaskDelay 20]\<rparr>"
  using assms
  by (simp add: loop_pass_def suspension_check_def no_data_def Let_def word_sle_eq
      no_msg_cnt_warn_750 SERVER_TASK_SLEEP_TIME_MS_def)

lemma idle_pass_suspended:
  assumes "is_stream_stop s"
  shows "loop_pass pr NoData s = s\<lparr>trace := trace s @ [Ioctl, VTaskDelay 20]\<rparr>"
  using assms
  by (simp add: loop_pass_def suspension_check_def no_data_def Let_def
      SERVER_TASK_SLEEP_TIME_MS_def)

lemma idle_pass_fires:
  assumes "\<not> is_stream_stop s" "750 \<le> sint (no_msg_cnt s)"
  shows "loop_pass pr NoData s =
           s\<lparr>world := stream_stop (world s), is_stream_stop := True,
              trace := trace s @ [StreamStop, Ioctl, VTaskDelay 20]\<rparr>"
  using assms
  by (simp add: loop_pass_def suspension_check_def no_data_def Let_def word_sle_eq
      no_msg_cnt_warn_750 SERVER_TASK_SLEEP_TIME_MS_def)

lemma idle_run_below:
  assumes "\<not> deleted s" "\<not> is_stream_stop s" "no_msg_cnt s = 0" "k \<le> 750"
  shows "udp_server_task pr (replicate k NoData) s =
           s\<lparr>no_msg_cnt := of_nat k,
              trace := trace s @ concat (replicate k [Ioctl, VTaskDelay 20])\<rparr>"
  using assms(4)
proof (induction k)
  case 0
  then show ?case using assms by simp
next
  case (Suc k)
  let ?t = "s\<lparr>no_msg_cnt := of_nat k,
              trace := trace s @ concat (replicate k [Ioctl, VTaskDelay 20])\<rparr>"
  have run: "udp_server_task pr (replicate k NoData) s = ?t"
    using Suc by simp
  have below: "sint (no_msg_cnt ?t) < 750"
    using Suc.prems by (simp add: sint_of_nat_small)
  have snoc: "replicate (Suc k) NoData = replicate k NoData @ [NoData]"
    by (simp add: replicate_append_same)
  have "udp_server_task pr (replicate (Suc k) NoData) s = loop_pass pr NoData ?t"
    unfolding snoc run_snoc run using assms(1) by simp
  also have "\<dots> = ?t\<lparr>no_msg_cnt := no_msg_cnt ?t + 1,
              trace := trace ?t @ [Ioctl, VTaskDelay 20]\<rparr>"
    using assms(2) below by (intro idle_pass_below) simp_all
  also have "\<dots> = s\<lparr>no_msg_cnt := of_nat (Suc k),
              trace := trace s @ concat (replicate (Suc k) [Ioctl, VTaskDelay 20])\<rparr>"
  proof -
    have "concat (replicate (Suc k) [Ioctl, VTaskDelay 20]) =
            concat (replicate k [Ioctl, VTaskDelay 20]) @ [Ioctl, VTaskDelay 20]"
      by (rule concat_replicate_snoc)
    then show ?thesis by (simp add: add.commute)
  qed
  finally show ?case .
qed

lemma replicate_Suc_snoc: "replicate (Suc n) x = replicate n x @ [x]"
  by (simp add: replicate_append_same)

lemma idle_run_above:
  assumes "\<not> deleted s" "\<not> is_stream_stop s" "no_msg_cnt s = 0"
  shows "udp_server_task pr (replicate (Suc (750 + m)) NoData) s =
           s\<lparr>no_msg_cnt := 750, world := stream_stop (world s), is_stream_stop := True,
              trace := trace s @ concat (replicate 750 [Ioctl, VTaskDelay 20]) @
                StreamStop # concat (replicate (Suc m) [Ioctl, VTaskDelay 20])\<rparr>"
proof (induction m)
  case 0
  let ?t = "s\<lparr>no_msg_cnt := of_nat 750,
              trace := trace s @ concat (replicate 750 [Ioctl, VTaskDelay 20])\<rparr>"
  have run: "udp_server_task pr (replicate 750 NoData) s = ?t"
    using assms by (intro idle_run_below) simp_all
  have "udp_server_task pr (replicate (Suc 750) NoData) s = loop_pass pr NoData ?t"
    unfolding replicate_Suc_snoc run_snoc run using assms(1) by simp
  also have "\<dots> = ?t\<lparr>world := stream_stop (world ?t), is_stream_stop := True,
              trace := trace ?t @ [StreamStop, Ioctl, VTaskDelay 20]\<rparr>"
    using assms(2) by (intro idle_pass_fires) simp_all
  finally show ?case by simp
next
  case (Suc m)
  let ?t = "s\<lparr>no_msg_cnt := 750, world := stream_stop (world s), is_stream_stop := True,
              trace := trace s @ concat (replicate 750 [Ioctl, VTaskDelay 20]) @
                StreamStop # concat (replicate (Suc m) [Ioctl, VTaskDelay 20])\<rparr>"
  have "udp_server_task pr (replicate (Suc (Suc (750 + m))) NoData) s = loop_pass pr NoData ?t"
    unfolding replicate_Suc_snoc [of "Suc (750 + m)"] run_snoc Suc.IH using assms(1) by simp
  also have "\<dots> = ?t\<lparr>trace := trace ?t @ [Ioctl, VTaskDelay 20]\<rparr>"
    by (intro idle_pass_suspended) simp
  also have "\<dots> = s\<lparr>no_msg_cnt := 750, world := stream_stop (world s), is_stream_stop := True,
              trace := trace s @ concat (replicate 750 [Ioctl, VTaskDelay 20]) @
                StreamStop # concat (replicate (Suc (Suc m)) [Ioctl, VTaskDelay 20])\<rparr>"
    using concat_replicate_snoc [of "Suc m" "[Ioctl, VTaskDelay 20]"]
    by (simp del: replicate.simps)
  finally show ?case by simp
qed

subsection \<open>The start of the task\<close>

lemma entry_fresh:
  assumes "0 \<le> r"
  shows "task_entry b0 w r =
           \<lparr>buf = b0, sock = r, sourceAddr = 0, no_msg_cnt = 0, is_stream_stop = False,
            deleted = False, world = w, trace = [Socket r, Bind r]\<rparr>"
  using assms by (simp add: task_entry_def socket_setup_def)

subsection \<open>The counter stays in range\<close>

lemma loop_pass_cnt_range:
  assumes "0 \<le> sint (no_msg_cnt s)" "sint (no_msg_cnt s) \<le> 750"
  shows "0 \<le> sint (no_msg_cnt (loop_pass pr ev s)) \<and>
         sint (no_msg_cnt (loop_pass pr ev s)) \<le> 750"
proof (cases ev)
  case NoData
  show ?thesis
  proof (cases "is_stream_stop s")
    case True
    then show ?thesis using assms NoData by (simp add: idle_pass_suspended)
  next
    case False
    show ?thesis
    proof (cases "sint (no_msg_cnt s) < 750")
      case True
      with False assms show ?thesis
        unfolding NoData by (simp add: idle_pass_below sint_succ)
    next
      case False
      with \<open>\<not> is_stream_stop s\<close> assms show ?thesis
        unfolding NoData by (simp add: idle_pass_fires)
    qed
  qed
next
  case (Datagram a payload)
  then show ?thesis
    by (simp add: loop_pass_def data_received_def Let_def split: prod.splits)
next
  case (RecvError r)
  then show ?thesis using assms
    by (simp add: loop_pass_def socket_setup_def socket_teardown_def suspension_check_def Let_def)
qed

lemma run_cnt_range:
  assumes "0 \<le> sint (no_msg_cnt s)" "sint (no_msg_cnt s) \<le> 750"
  shows "0 \<le> sint (no_msg_cnt (udp_server_task pr evs s)) \<and>
         sint (no_msg_cnt (udp_server_task pr evs s)) \<le> 750"
  using assms
proof (induction evs arbitrary: s)
  case Nil
  then show ?case by simp
next
  case (Cons ev evs)
  show ?case
  proof (cases "deleted s")
    case True
    then show ?thesis using Cons.prems by simp
  next
    case False
    have "0 \<le> sint (no_msg_cnt (loop_pass pr ev s)) \<and>
          sint (no_msg_cnt (loop_pass pr ev s)) \<le> 750"
      using Cons.prems by (rule loop_pass_cnt_range)
    then show ?thesis using False Cons.IH [of "loop_pass pr ev s"] by simp
  qed
qed

lemma entry_cnt: "no_msg_cnt (task_entry b0 w r) = 0"
  by (simp add: task_entry_def socket_setup_def)

subsection \<open>Reading traces\<close>

lemma replies_append: "replies (xs @ ys) = replies xs @ replies ys"
  by (induction xs rule: replies.induct) simp_all

lemma requests_append: "requests (xs @ ys) = requests xs @ requests ys"
  by (induction xs rule: requests.induct) simp_all

lemma stream_stops_append: "stream_stops (xs @ ys) = stream_stops xs + stream_stops ys"
  by (induction xs rule: stream_stops.induct) simp_all

lemma stream_stops_idle: "stream_stops (concat (replicate k [Ioctl, VTaskDelay d])) = 0"
  by (induction k) simp_all

subsection \<open>Runs that find no data\<close>

lemma run_751:
  "udp_server_task sample_handler (replicate 751 NoData) (task_entry (replicate 9 0) sample_world 3) =
     \<lparr>buf = replicate 9 0, sock = 3, sourceAddr = 0, no_msg_cnt = 750, is_stream_stop = True,
      deleted = False, world = stream_stop sample_world,
      trace = [Socket 3, Bind 3] @ concat (replicate 750 [Ioctl, VTaskDelay 20]) @
        StreamStop # concat (replicate (Suc 0) [Ioctl, VTaskDelay 20])\<rparr>"
proof -
  have n: "(751::nat) = Suc (750 + 0)" by simp
  show ?thesis
    unfolding n
    by (subst idle_run_above) (simp_all add: entry_fresh del: replicate.simps replicate_Suc)
qed

lemma idle_run_entry_below:
  assumes "0 \<le> r" "n \<le> 750"
  shows "udp_server_task pr (replicate n NoData) (task_entry b0 w r) =
           \<lparr>buf = b0, sock = r, sourceAddr = 0, no_msg_cnt = of_nat n, is_stream_stop = False,
            deleted = False, world = w,
            trace = [Socket r, Bind r] @ concat (replicate n [Ioctl, VTaskDelay 20])\<rparr>"
  using assms by (subst idle_run_below) (simp_all add: entry_fresh)

lemma idle_run_entry_above:
  assumes "0 \<le> r" "750 < n"
  shows "udp_server_task pr (replicate n NoData) (task_entry b0 w r) =
           \<lparr>buf = b0, sock = r, sourceAddr = 0, no_msg_cnt = 750, is_stream_stop = True,
            deleted = False, world = stream_stop w,
            trace = [Socket r, Bind r] @ concat (replicate 750 [Ioctl, VTaskDelay 20]) @
              StreamStop # concat (replicate (n - 750) [Ioctl, VTaskDelay 20])\<rparr>"
proof -
  obtain m where n: "n = Suc (750 + m)"
    using assms(2) by (metis add_Suc_right less_imp_Suc_add)
  have d: "n - 750 = Suc m" using n by simp
  show ?thesis
    unfolding d unfolding n using assms(1)
    by (subst idle_run_above) (simp_all add: entry_fresh del: replicate.simps replicate_Suc)
qed

subsection \<open>The passes, written out\<close>

lemma suspension_check_keeps:
  "buf (suspension_check s) = buf s"
  "sock (suspension_check s) = sock s"
  "deleted (suspension_check s) = deleted s"
  "sourceAddr (suspension_check s) = sourceAddr s"
  "no_msg_cnt (suspension_check s) = no_msg_cnt s"
  "pid_data (world (suspension_check s)) = pid_data (world s)"
  by (simp_all add: suspension_check_def stream_stop_def)

lemma data_pass:
  "loop_pass pr (Datagram a payload) s =
     (let s1 = suspension_check s;
          req = take REQUEST_RESPONSE_BUF_SIZE payload @
                drop (min (length payload) REQUEST_RESPONSE_BUF_SIZE) (buf s)
      in s1\<lparr>buf := memset (fst (pr req (world s1))) 0 REQUEST_RESPONSE_BUF_SIZE,
             sourceAddr := a,
             no_msg_cnt := 0,
             is_stream_stop := False,
             world := snd (pr req (world s1)),
             trace := trace s1 @
               [Ioctl,
                Recvfrom (sock s) a (int (min (length payload) REQUEST_RESPONSE_BUF_SIZE)),
                ProcessRequest req,
                Sendto (sock s) a (take REQUEST_RESPONSE_BUF_SIZE (fst (pr req (world s1))))]\<rparr>)"
proof -
  have "take (min (length payload) n) payload = take n payload" for n
    by (simp add: min_def)
  then show ?thesis
    by (simp add: loop_pass_def data_received_def recvfrom_def Let_def case_prod_beta
        suspension_check_keeps)
qed

lemma error_pass:
  "loop_pass pr (RecvError r) s = socket_setup r (socket_teardown
     ((suspension_check s)\<lparr>trace := trace (suspension_check s) @
        [Ioctl, RecvfromFailed (sock s)]\<rparr>))"
  by (simp add: loop_pass_def Let_def suspension_check_keeps)

lemma suspension_check_suspended: "is_stream_stop s \<Longrightarrow> suspension_check s = s"
  by (simp add: suspension_check_def)

text \<open>
  What the task itself does with the watchdog when a datagram arrives: the flag is
  cleared, the counter is reset, and the outside world is left as \<open>process_request\<close>
  returns it; the task makes no call of its own that switches the telemetry on.
\<close>

lemma data_pass_watchdog:
  "\<not> is_stream_stop (loop_pass pr (Datagram a payload) s) \<and>
   no_msg_cnt (loop_pass pr (Datagram a payload) s) = 0 \<and>
   world (loop_pass pr (Datagram a payload) s) =
     snd (pr (take REQUEST_RESPONSE_BUF_SIZE payload @
              drop (min (length payload) REQUEST_RESPONSE_BUF_SIZE) (buf s))
             (world (suspension_check s))) \<and>
   stream_stops (trace (loop_pass pr (Datagram a payload) s)) =
     stream_stops (trace (suspension_check s))"
  by (simp add: data_pass Let_def stream_stops_append)

lemma in_place_sample: "in_place sample_handler"
  by (simp add: in_place_def sample_handler_def)

subsection \<open>What one pass adds to the trace\<close>

lemma idle_pass_trace:
  "trace (loop_pass pr NoData s) = trace (suspension_check s) @ [Ioctl, VTaskDelay 20]"
  by (simp add: loop_pass_def no_data_def Let_def SERVER_TASK_SLEEP_TIME_MS_def)

lemma error_pass_trace:
  "trace (loop_pass pr (RecvError r) s) =
     trace (suspension_check s) @ [Ioctl, RecvfromFailed (sock s)] @
     (if sock s \<noteq> - 1 then [Shutdown (sock s), Close (sock s)] else []) @
     (if r < 0 then [Socket r, VTaskDelete] else [Socket r, Bind r])"
  by (simp add: error_pass socket_setup_def socket_teardown_def suspension_check_keeps)

lemma check_trace:
  "replies (trace (suspension_check s)) = replies (trace s)"
  "requests (trace (suspension_check s)) = requests (trace s)"
  by (simp_all add: suspension_check_def replies_append requests_append)

lemma pass_deleted:
  "deleted (loop_pass pr NoData s) = deleted s"
  "deleted (loop_pass pr (Datagram a payload) s) = deleted s"
  "deleted (loop_pass pr (RecvError r) s) = (deleted s \<or> r < 0)"
  by (simp_all add: loop_pass_def no_data_def data_received_def socket_setup_def
      socket_teardown_def suspension_check_keeps Let_def case_prod_beta)

lemma pass_replies:
  "replies (trace (loop_pass pr NoData s)) = replies (trace s)"
  "replies (trace (loop_pass pr (RecvError r) s)) = replies (trace s)"
  "replies (trace (loop_pass pr (Datagram a payload) s)) =
     replies (trace s) @
       [(a, take REQUEST_RESPONSE_BUF_SIZE
              (fst (pr (take REQUEST_RESPONSE_BUF_SIZE payload @
                        drop (min (length payload) REQUEST_RESPONSE_BUF_SIZE) (buf s))
                       (world (suspension_check s)))))]"
  by (simp_all add: idle_pass_trace error_pass_trace data_pass Let_def replies_append check_trace)

lemma pass_requests:
  "requests (trace (loop_pass pr NoData s)) = requests (trace s)"
  "requests (trace (loop_pass pr (RecvError r) s)) = requests (trace s)"
  "requests (trace (loop_pass pr (Datagram a payload) s)) =
     requests (trace s) @
       [take REQUEST_RESPONSE_BUF_SIZE payload @
        drop (min (length payload) REQUEST_RESPONSE_BUF_SIZE) (buf s)]"
  by (simp_all add: idle_pass_trace error_pass_trace data_pass Let_def requests_append check_trace)

lemma pass_buf:
  "buf (loop_pass pr NoData s) = buf s"
  "buf (loop_pass pr (RecvError r) s) = buf s"
  "buf (loop_pass pr (Datagram a payload) s) =
     memset (fst (pr (take REQUEST_RESPONSE_BUF_SIZE payload @
                        drop (min (length payload) REQUEST_RESPONSE_BUF_SIZE) (buf s))
                     (world (suspension_check s)))) 0 REQUEST_RESPONSE_BUF_SIZE"
proof -
  show "buf (loop_pass pr NoData s) = buf s"
    by (simp add: loop_pass_def no_data_def suspension_check_keeps Let_def)
  show "buf (loop_pass pr (RecvError r) s) = buf s"
    by (simp add: error_pass socket_setup_def socket_teardown_def suspension_check_keeps)
  show "buf (loop_pass pr (Datagram a payload) s) =
     memset (fst (pr (take REQUEST_RESPONSE_BUF_SIZE payload @
                        drop (min (length payload) REQUEST_RESPONSE_BUF_SIZE) (buf s))
                     (world (suspension_check s)))) 0 REQUEST_RESPONSE_BUF_SIZE"
    by (simp add: data_pass Let_def)
qed

subsection \<open>Replies of a run\<close>

lemma run_reply_dests:
  assumes "\<not> deleted s"
  shows "map fst (replies (trace (udp_server_task pr evs s))) =
           map fst (replies (trace s)) @ map fst (received evs) \<and>
         length (requests (trace (udp_server_task pr evs s))) =
           length (requests (trace s)) + length (received evs)"
  using assms
proof (induction evs arbitrary: s)
  case Nil
  then show ?case by simp
next
  case (Cons ev evs)
  show ?case
  proof (cases ev)
    case NoData
    have "\<not> deleted (loop_pass pr NoData s)"
      using Cons.prems by (simp add: pass_deleted)
    from Cons.IH [OF this] show ?thesis
      using Cons.prems by (simp add: NoData pass_replies pass_requests)
  next
    case (Datagram a payload)
    have "\<not> deleted (loop_pass pr (Datagram a payload) s)"
      using Cons.prems by (simp add: pass_deleted)
    from Cons.IH [OF this] show ?thesis
      using Cons.prems by (simp add: Datagram pass_replies pass_requests)
  next
    case (RecvError r)
    show ?thesis
    proof (cases "r < 0")
      case True
      then have "deleted (loop_pass pr (RecvError r) s)"
        by (simp add: pass_deleted)
      then show ?thesis
        using Cons.prems True
        by (simp add: RecvError run_deleted pass_replies pass_requests)
    next
      case False
      then have "\<not> deleted (loop_pass pr (RecvError r) s)"
        using Cons.prems by (simp add: pass_deleted)
      from Cons.IH [OF this] show ?thesis
        using Cons.prems False by (simp add: RecvError pass_replies pass_requests)
    qed
  qed
qed

subsection \<open>The buffer keeps its size\<close>

lemma request_size:
  assumes "length b = REQUEST_RESPONSE_BUF_SIZE"
  shows "length (take REQUEST_RESPONSE_BUF_SIZE payload @
                 drop (min (length payload) REQUEST_RESPONSE_BUF_SIZE) b) =
           REQUEST_RESPONSE_BUF_SIZE"
  using assms by simp

lemma memset_whole:
  assumes "length b = n"
  shows "memset b c n = replicate n c"
  using assms by (simp add: memset_def)

lemma pass_buf_zeroed:
  assumes "in_place pr" "length (buf s) = REQUEST_RESPONSE_BUF_SIZE"
  shows "buf (loop_pass pr (Datagram a payload) s) = replicate REQUEST_RESPONSE_BUF_SIZE 0"
proof -
  let ?req = "take REQUEST_RESPONSE_BUF_SIZE payload @
              drop (min (length payload) REQUEST_RESPONSE_BUF_SIZE) (buf s)"
  have "length (fst (pr ?req (world (suspension_check s)))) = REQUEST_RESPONSE_BUF_SIZE"
    using assms(1) request_size [OF assms(2), of payload] by (simp add: in_place_def)
  then show ?thesis
    by (simp add: pass_buf memset_whole)
qed

lemma pass_buf_size:
  assumes "in_place pr" "length (buf s) = REQUEST_RESPONSE_BUF_SIZE"
  shows "length (buf (loop_pass pr ev s)) = REQUEST_RESPONSE_BUF_SIZE"
proof (cases ev)
  case NoData
  then show ?thesis using assms(2) by (simp add: pass_buf)
next
  case (Datagram a payload)
  then show ?thesis using pass_buf_zeroed [OF assms] by simp
next
  case (RecvError r)
  then show ?thesis using assms(2) by (simp add: pass_buf)
qed

lemma pass_reply_whole:
  assumes "in_place pr" "length (buf s) = REQUEST_RESPONSE_BUF_SIZE"
  shows "replies (trace (loop_pass pr (Datagram a payload) s)) =
     replies (trace s) @
       [(a, fst (pr (take REQUEST_RESPONSE_BUF_SIZE payload @
                     drop (min (length payload) REQUEST_RESPONSE_BUF_SIZE) (buf s))
                    (world (suspension_check s))))]"
proof -
  let ?req = "take REQUEST_RESPONSE_BUF_SIZE payload @
              drop (min (length payload) REQUEST_RESPONSE_BUF_SIZE) (buf s)"
  have "length (fst (pr ?req (world (suspension_check s)))) = REQUEST_RESPONSE_BUF_SIZE"
    using assms(1) request_size [OF assms(2), of payload] by (simp add: in_place_def)
  then show ?thesis
    by (simp add: pass_replies)
qed

lemma pass_sizes:
  assumes "in_place pr" "length (buf s) = REQUEST_RESPONSE_BUF_SIZE"
    and "\<forall>b \<in> set (requests (trace s)). length b = REQUEST_RESPONSE_BUF_SIZE"
    and "\<forall>m \<in> snd ` set (replies (trace s)). length m = REQUEST_RESPONSE_BUF_SIZE"
  shows "(\<forall>b \<in> set (requests (trace (loop_pass pr ev s))).
            length b = REQUEST_RESPONSE_BUF_SIZE) \<and>
         (\<forall>m \<in> snd ` set (replies (trace (loop_pass pr ev s))).
            length m = REQUEST_RESPONSE_BUF_SIZE)"
proof (cases ev)
  case NoData
  then show ?thesis using assms(3,4) by (simp add: pass_requests pass_replies)
next
  case (Datagram a payload)
  let ?req = "take REQUEST_RESPONSE_BUF_SIZE payload @
              drop (min (length payload) REQUEST_RESPONSE_BUF_SIZE) (buf s)"
  have req: "length ?req = REQUEST_RESPONSE_BUF_SIZE"
    by (rule request_size [OF assms(2)])
  have out: "length (fst (pr ?req (world (suspension_check s)))) = REQUEST_RESPONSE_BUF_SIZE"
    using assms(1) req by (simp add: in_place_def)
  show ?thesis
    unfolding Datagram pass_requests pass_reply_whole [OF assms(1,2)]
    using assms(3,4) req out by auto
next
  case (RecvError r)
  then show ?thesis using assms(3,4) by (simp add: pass_requests pass_replies)
qed

lemma run_sizes:
  assumes "in_place pr" "length (buf s) = REQUEST_RESPONSE_BUF_SIZE"
    and "\<forall>b \<in> set (requests (trace s)). length b = REQUEST_RESPONSE_BUF_SIZE"
    and "\<forall>m \<in> snd ` set (replies (trace s)). length m = REQUEST_RESPONSE_BUF_SIZE"
  shows "length (buf (udp_server_task pr evs s)) = REQUEST_RESPONSE_BUF_SIZE \<and>
         (\<forall>b \<in> set (requests (trace (udp_server_task pr evs s))).
            length b = REQUEST_RESPONSE_BUF_SIZE) \<and>
         (\<forall>m \<in> snd ` set (replies (trace (udp_server_task pr evs s))).
            length m = REQUEST_RESPONSE_BUF_SIZE)"
  using assms(2,3,4)
proof (induction evs arbitrary: s)
  case Nil
  then show ?case by simp
next
  case (Cons ev evs)
  show ?case
  proof (cases "deleted s")
    case True
    then show ?thesis using Cons.prems by simp
  next
    case False
    have 1: "length (buf (loop_pass pr ev s)) = REQUEST_RESPONSE_BUF_SIZE"
      by (rule pass_buf_size [OF assms(1) Cons.prems(1)])
    note 2 = pass_sizes [OF assms(1) Cons.prems, of ev]
    show ?thesis
      using False Cons.IH [OF 1 conjunct1 [OF 2] conjunct2 [OF 2]] by simp
  qed
qed

lemma entry_buf: "buf (task_entry b0 w r) = b0"
  by (simp add: task_entry_def socket_setup_def)

lemma entry_trace_quiet:
  "requests (trace (task_entry b0 w r)) = []"
  "replies (trace (task_entry b0 w r)) = []"
  by (simp_all add: task_entry_def socket_setup_def)

subsection \<open>Evaluating a run\<close>

lemma replicate_numeral_unfold: "replicate (numeral k) x = x # replicate (pred_numeral k) x"
  by (simp add: numeral_eq_Suc)

lemmas task_eval =
  task_entry_def socket_setup_def socket_teardown_def loop_pass_def suspension_check_def
  no_data_def data_received_def recvfrom_def memset_def stream_stop_def sample_handler_def
  sample_world_def buf_size_9 no_msg_cnt_warn_750 word_sle_eq SERVER_TASK_SLEEP_TIME_MS_def
  Let_def replicate_numeral_unfold

subsection \<open>The buffer between two requests\<close>

lemma zeroed_request:
  "take REQUEST_RESPONSE_BUF_SIZE payload @
   drop (min (length payload) REQUEST_RESPONSE_BUF_SIZE) (replicate REQUEST_RESPONSE_BUF_SIZE 0) =
     zero_padded payload"
  by (simp add: zero_padded_def)

lemma zeroed_request_simp:
  "take REQUEST_RESPONSE_BUF_SIZE payload @
   replicate (REQUEST_RESPONSE_BUF_SIZE - min (length payload) REQUEST_RESPONSE_BUF_SIZE) 0 =
     zero_padded payload"
  by (simp add: zero_padded_def)

lemma run_requests_zeroed:
  assumes "in_place pr"
  shows "\<not> deleted s \<Longrightarrow> buf s = replicate REQUEST_RESPONSE_BUF_SIZE 0 \<Longrightarrow>
         requests (trace (udp_server_task pr evs s)) =
           requests (trace s) @ map zero_padded (map snd (received evs)) \<and>
         buf (udp_server_task pr evs s) = replicate REQUEST_RESPONSE_BUF_SIZE 0"
proof (induction evs arbitrary: s)
  case Nil
  then show ?case by simp
next
  case (Cons ev evs)
  have len: "length (buf s) = REQUEST_RESPONSE_BUF_SIZE"
    using Cons.prems(2) by simp
  show ?case
  proof (cases ev)
    case NoData
    have "\<not> deleted (loop_pass pr NoData s)"
      "buf (loop_pass pr NoData s) = replicate REQUEST_RESPONSE_BUF_SIZE 0"
      using Cons.prems by (simp_all add: pass_deleted pass_buf)
    from Cons.IH [OF this] show ?thesis
      using Cons.prems(1) by (simp add: NoData pass_requests)
  next
    case (Datagram a payload)
    have "\<not> deleted (loop_pass pr (Datagram a payload) s)"
      "buf (loop_pass pr (Datagram a payload) s) = replicate REQUEST_RESPONSE_BUF_SIZE 0"
      using Cons.prems(1) pass_buf_zeroed [OF assms len] by (simp_all add: pass_deleted)
    from Cons.IH [OF this] show ?thesis
      using Cons.prems(1)
      by (simp add: Datagram pass_requests Cons.prems(2) zeroed_request_simp)
  next
    case (RecvError r)
    show ?thesis
    proof (cases "r < 0")
      case True
      then have "deleted (loop_pass pr (RecvError r) s)"
        by (simp add: pass_deleted)
      then show ?thesis
        using Cons.prems True by (simp add: RecvError run_deleted pass_requests pass_buf)
    next
      case False
      then have "\<not> deleted (loop_pass pr (RecvError r) s)"
        "buf (loop_pass pr (RecvError r) s) = replicate REQUEST_RESPONSE_BUF_SIZE 0"
        using Cons.prems by (simp_all add: pass_deleted pass_buf)
      from Cons.IH [OF this] show ?thesis
        using Cons.prems(1) False by (simp add: RecvError pass_requests)
    qed
  qed
qed

lemma run_requests_first:
  assumes "in_place pr"
  shows "\<not> deleted s \<Longrightarrow> length (buf s) = REQUEST_RESPONSE_BUF_SIZE \<Longrightarrow>
         requests (trace (udp_server_task pr evs s)) =
           requests (trace s) @
             (case map snd (received evs) of
                [] \<Rightarrow> []
              | p # ps \<Rightarrow>
                  (take REQUEST_RESPONSE_BUF_SIZE p @
                   drop (min (length p) REQUEST_RESPONSE_BUF_SIZE) (buf s)) #
                  map zero_padded ps) \<and>
         (received evs \<noteq> [] \<longrightarrow>
            buf (udp_server_task pr evs s) = replicate REQUEST_RESPONSE_BUF_SIZE 0)"
proof (induction evs arbitrary: s)
  case Nil
  then show ?case by simp
next
  case (Cons ev evs)
  show ?case
  proof (cases ev)
    case NoData
    have "\<not> deleted (loop_pass pr NoData s)"
      "length (buf (loop_pass pr NoData s)) = REQUEST_RESPONSE_BUF_SIZE"
      using Cons.prems by (simp_all add: pass_deleted pass_buf)
    from Cons.IH [OF this] show ?thesis
      using Cons.prems(1) by (simp add: NoData pass_requests pass_buf cong: list.case_cong)
  next
    case (Datagram a payload)
    have "\<not> deleted (loop_pass pr (Datagram a payload) s)"
      "buf (loop_pass pr (Datagram a payload) s) = replicate REQUEST_RESPONSE_BUF_SIZE 0"
      using Cons.prems(1) pass_buf_zeroed [OF assms Cons.prems(2)]
      by (simp_all add: pass_deleted)
    from run_requests_zeroed [OF assms this, of evs] show ?thesis
      using Cons.prems(1) by (simp add: Datagram pass_requests)
  next
    case (RecvError r)
    show ?thesis
    proof (cases "r < 0")
      case True
      then have "deleted (loop_pass pr (RecvError r) s)"
        by (simp add: pass_deleted)
      then show ?thesis
        using Cons.prems True by (simp add: RecvError run_deleted pass_requests)
    next
      case False
      then have "\<not> deleted (loop_pass pr (RecvError r) s)"
        "length (buf (loop_pass pr (RecvError r) s)) = REQUEST_RESPONSE_BUF_SIZE"
        using Cons.prems by (simp_all add: pass_deleted pass_buf)
      from Cons.IH [OF this] show ?thesis
        using Cons.prems(1) False
        by (simp add: RecvError pass_requests pass_buf cong: list.case_cong)
    qed
  qed
qed

subsection \<open>The socket and the PID data\<close>

lemma pass_sock:
  assumes "deleted s \<or> 0 \<le> sock s"
  shows "deleted (loop_pass pr ev s) \<or> 0 \<le> sock (loop_pass pr ev s)"
  using assms
  by (cases ev)
     (auto simp add: loop_pass_def no_data_def data_received_def socket_setup_def
        socket_teardown_def suspension_check_keeps Let_def case_prod_beta)

lemma run_sock:
  assumes "deleted s \<or> 0 \<le> sock s"
  shows "deleted (udp_server_task pr evs s) \<or> 0 \<le> sock (udp_server_task pr evs s)"
  using assms
proof (induction evs arbitrary: s)
  case Nil
  then show ?case by simp
next
  case (Cons ev evs)
  show ?case
  proof (cases "deleted s")
    case True
    then show ?thesis by simp
  next
    case False
    then show ?thesis
      using Cons.IH [OF pass_sock [OF Cons.prems, of pr ev]] by simp
  qed
qed

lemma entry_sock: "deleted (task_entry b0 w r) \<or> 0 \<le> sock (task_entry b0 w r)"
  by (simp add: task_entry_def socket_setup_def)

lemma run_without_request:
  assumes "received evs = []"
  shows "pid_data (world (udp_server_task pr evs s)) = pid_data (world s)"
  using assms
proof (induction evs arbitrary: s)
  case Nil
  then show ?case by simp
next
  case (Cons ev evs)
  show ?case
  proof (cases ev)
    case NoData
    then show ?thesis
      using Cons
      by (simp add: loop_pass_def no_data_def suspension_check_keeps Let_def)
  next
    case (Datagram a payload)
    then show ?thesis using Cons.prems by simp
  next
    case (RecvError r)
    have keep: "pid_data (world (loop_pass pr (RecvError r) s)) = pid_data (world s)"
      by (simp add: error_pass socket_setup_def socket_teardown_def suspension_check_keeps)
    show ?thesis
    proof (cases "r < 0")
      case True
      then have "deleted (loop_pass pr (RecvError r) s)"
        by (simp add: pass_deleted)
      then show ?thesis
        using keep by (simp add: RecvError run_deleted)
    next
      case False
      then show ?thesis
        using Cons keep by (simp add: RecvError)
    qed
  qed
qed

subsection \<open>The accumulator of the PID engine\<close>

lemma clamp_within:
  assumes "lo \<le> hi"
  shows "lo \<le> clamp x lo hi \<and> clamp x lo hi \<le> hi"
  using assms by (simp add: clamp_def)

lemma step_accumulator:
  assumes "step s measurement dt = Inr (s', output)"
  shows "integral_min s' = integral_min s \<and> integral_max s' = integral_max s \<and>
         integral_accumulator s' =
           clamp (integral_accumulator s + (setpoint s - measurement) * dt)
             (integral_min s) (integral_max s)"
  using assms by (auto simp add: step_def Let_def split: if_splits)

lemma step_within:
  assumes "integral_min s \<le> integral_max s" "step s measurement dt = Inr (s', output)"
  shows "integral_min s' \<le> integral_max s' \<and>
         integral_min s' \<le> integral_accumulator s' \<and>
         integral_accumulator s' \<le> integral_max s'"
  using step_accumulator [OF assms(2)] clamp_within [OF assms(1)] assms(1) by simp

lemma step_calls_within:
  assumes "integral_min s \<le> integral_max s"
    and "integral_min s \<le> integral_accumulator s"
    and "integral_accumulator s \<le> integral_max s"
  shows "integral_min (step_calls s calls) = integral_min s \<and>
         integral_max (step_calls s calls) = integral_max s \<and>
         integral_min s \<le> integral_accumulator (step_calls s calls) \<and>
         integral_accumulator (step_calls s calls) \<le> integral_max s"
  using assms
proof (induction calls arbitrary: s)
  case Nil
  then show ?case by simp
next
  case (Cons c calls)
  obtain measurement dt where c: "c = (measurement, dt)"
    by (cases c)
  show ?case
  proof (cases "step s measurement dt")
    case (Inl e)
    then show ?thesis
      using Cons.IH [OF Cons.prems] by (simp add: c)
  next
    case (Inr res)
    obtain s' out where res: "res = (s', out)"
      by (cases res)
    have st: "step s measurement dt = Inr (s', out)"
      using Inr res by simp
    note lim = step_accumulator [OF st]
    note inv = step_within [OF Cons.prems(1) st]
    have "integral_min (step_calls s' calls) = integral_min s' \<and>
          integral_max (step_calls s' calls) = integral_max s' \<and>
          integral_min s' \<le> integral_accumulator (step_calls s' calls) \<and>
          integral_accumulator (step_calls s' calls) \<le> integral_max s'"
      using inv by (intro Cons.IH) simp_all
    then show ?thesis
      using lim by (simp add: c st)
  qed
qed

section \<open>Datagrams of any length\<close>

text \<open>
  Claim C1, as amended. The task does not compare the length of a datagram with the
  frame size: every datagram that \<open>recvfrom\<close> returns, of nine bytes or not, is handed
  to \<open>process_request\<close> in the buffer, which may change the controller state, and is
  answered with one reply of nine bytes to its sender. Only a failing \<open>recvfrom\<close> gives no
  reply and no call of \<open>process_request\<close>, and leaves the PID data unchanged.
\<close>

theorem every_datagram_is_answered:
  assumes "in_place pr" "length (buf s) = REQUEST_RESPONSE_BUF_SIZE"
  shows "requests (trace (loop_pass pr (Datagram a payload) s)) =
           requests (trace s) @
             [take REQUEST_RESPONSE_BUF_SIZE payload @
              drop (min (length payload) REQUEST_RESPONSE_BUF_SIZE) (buf s)] \<and>
         replies (trace (loop_pass pr (Datagram a payload) s)) =
           replies (trace s) @
             [(a, fst (pr (take REQUEST_RESPONSE_BUF_SIZE payload @
                           drop (min (length payload) REQUEST_RESPONSE_BUF_SIZE) (buf s))
                          (world (suspension_check s))))] \<and>
         length (snd (last (replies (trace (loop_pass pr (Datagram a payload) s))))) = 9 \<and>
         world (loop_pass pr (Datagram a payload) s) =
           snd (pr (take REQUEST_RESPONSE_BUF_SIZE payload @
                    drop (min (length payload) REQUEST_RESPONSE_BUF_SIZE) (buf s))
                   (world (suspension_check s))) \<and>
         requests (trace (loop_pass pr (RecvError r) s)) = requests (trace s) \<and>
         replies (trace (loop_pass pr (RecvError r) s)) = replies (trace s) \<and>
         pid_data (world (loop_pass pr (RecvError r) s)) = pid_data (world s)"
proof -
  let ?req = "take REQUEST_RESPONSE_BUF_SIZE payload @
              drop (min (length payload) REQUEST_RESPONSE_BUF_SIZE) (buf s)"
  have len_req: "length ?req = 9"
    using assms(2) by (simp add: buf_size_9)
  have len_out: "length (fst (pr ?req w)) = 9" for w
    using assms(1) len_req by (simp add: in_place_def)
  have chk_tr: "requests (trace (suspension_check s)) = requests (trace s)"
               "replies (trace (suspension_check s)) = replies (trace s)"
    by (simp_all add: suspension_check_def requests_append replies_append)
  have chk_pid: "pid_data (world (suspension_check s)) = pid_data (world s)"
    by (simp add: suspension_check_def stream_stop_def)
  have 1: "requests (trace (loop_pass pr (Datagram a payload) s)) = requests (trace s) @ [?req]"
    by (simp add: data_pass Let_def requests_append chk_tr)
  have 2: "replies (trace (loop_pass pr (Datagram a payload) s)) =
        replies (trace s) @ [(a, fst (pr ?req (world (suspension_check s))))]"
    using len_out [of "world (suspension_check s)"]
    by (simp add: data_pass Let_def replies_append chk_tr buf_size_9)
  have 3: "length (snd (last (replies (trace (loop_pass pr (Datagram a payload) s))))) = 9"
    unfolding 2 using len_out by simp
  have 4: "world (loop_pass pr (Datagram a payload) s) =
        snd (pr ?req (world (suspension_check s)))"
    by (simp add: data_pass Let_def)
  have 5: "requests (trace (loop_pass pr (RecvError r) s)) = requests (trace s)"
    by (simp add: error_pass socket_setup_def socket_teardown_def requests_append chk_tr)
  have 6: "replies (trace (loop_pass pr (RecvError r) s)) = replies (trace s)"
    by (simp add: error_pass socket_setup_def socket_teardown_def replies_append chk_tr)
  have 7: "pid_data (world (loop_pass pr (RecvError r) s)) = pid_data (world s)"
    by (simp add: error_pass socket_setup_def socket_teardown_def chk_pid)
  show ?thesis using 1 2 3 4 5 6 7 by blast
qed

theorem every_datagram_is_answered_witness:
  "in_place sample_handler \<and>
   length (buf (task_entry [0, 0, 0, 0, 0, 0, 0, 0, 0] sample_world 3)) =
     REQUEST_RESPONSE_BUF_SIZE \<and>
   length (snd (last (replies (trace (loop_pass sample_handler (Datagram 7 [1, 2, 3])
     (task_entry [0, 0, 0, 0, 0, 0, 0, 0, 0] sample_world 3)))))) = 9"
proof -
  have h1: "in_place sample_handler"
    by (rule in_place_sample)
  have h2: "length (buf (task_entry [0, 0, 0, 0, 0, 0, 0, 0, 0] sample_world 3)) =
      REQUEST_RESPONSE_BUF_SIZE"
    by (simp add: entry_fresh buf_size_9)
  show ?thesis
    using h1 h2 every_datagram_is_answered [OF h1 h2, of 7 "[1, 2, 3]" "- 1"]
    by blast
qed

text \<open>
  Claim C1 as stated fails: a datagram of three bytes is handed to \<open>process_request\<close>,
  which here changes the PID data, and is answered with a reply of nine bytes.
\<close>

theorem short_datagram_counterexample:
  "replies (trace (loop_pass sample_handler (Datagram 7 [1, 2, 3])
      (task_entry [0, 0, 0, 0, 0, 0, 0, 0, 0] sample_world 3))) =
     [(7, [1, 2, 3, 0, 0, 0, 0, 0, 0])] \<and>
   pid_data (world (task_entry [0, 0, 0, 0, 0, 0, 0, 0, 0] sample_world 3)) = [] \<and>
   pid_data (world (loop_pass sample_handler (Datagram 7 [1, 2, 3])
      (task_entry [0, 0, 0, 0, 0, 0, 0, 0, 0] sample_world 3))) = [1, 2, 3, 0, 0, 0, 0, 0, 0]"
  by (simp add: data_pass entry_fresh suspension_check_def no_msg_cnt_warn_750 Let_def
      sample_handler_def sample_world_def buf_size_9 word_sle_eq)

section \<open>When the stream is stopped\<close>

text \<open>
  Claim C2. The threshold \<open>no_msg_cnt_warn\<close> is 750. From the start of the task, with
  no request arriving, an idle tick is the \<open>FIONREAD\<close> query that finds nothing, the
  increment of the counter and the \<open>vTaskDelay\<close> of 20 ms. In the trace of \<open>n\<close> such ticks
  \<open>stream_stop\<close> stands directly behind the 750th delay, before the socket is queried
  again, and nowhere else: the suspension check, which is what runs when the delay of
  the \<open>n\<close>-th tick returns, leaves the watchdog suspended and the telemetry switched off
  exactly when \<open>n\<close> has reached 750, and \<open>stream_stop\<close> is called once.
\<close>

theorem suspension_after_750_idle_ticks:
  assumes "0 \<le> r"
  shows "sint no_msg_cnt_warn = 750 \<and>
    trace (udp_server_task pr (replicate n NoData) (task_entry b0 w r)) =
      [Socket r, Bind r] @ concat (replicate (min n 750) [Ioctl, VTaskDelay 20]) @
      (if 750 < n then StreamStop # concat (replicate (n - 750) [Ioctl, VTaskDelay 20])
       else []) \<and>
    (is_stream_stop (suspension_check
        (udp_server_task pr (replicate n NoData) (task_entry b0 w r))) \<longleftrightarrow> 750 \<le> n) \<and>
    world (suspension_check (udp_server_task pr (replicate n NoData) (task_entry b0 w r))) =
      (if 750 \<le> n then stream_stop w else w) \<and>
    stream_stops (trace (suspension_check
        (udp_server_task pr (replicate n NoData) (task_entry b0 w r)))) =
      (if 750 \<le> n then 1 else 0)"
proof (cases "n \<le> 750")
  case True
  note run = idle_run_entry_below [OF assms True, of pr b0 w]
  have m: "min n 750 = n" using True by simp
  have chk: "(750 :: 32 word) \<le>s of_nat n \<longleftrightarrow> 750 \<le> n"
    using True by (simp add: word_sle_eq sint_of_nat_small)
  show ?thesis
    unfolding run using True
    by (simp add: suspension_check_def chk m no_msg_cnt_warn_750 stream_stops_append
        stream_stops_idle del: replicate.simps)
next
  case False
  then have above: "750 < n" by simp
  note run = idle_run_entry_above [OF assms above, of pr b0 w]
  have m: "min n 750 = 750" using above by simp
  show ?thesis
    unfolding run using above
    by (simp add: suspension_check_def m no_msg_cnt_warn_750 stream_stops_append
        stream_stops_idle stream_stop_def del: replicate.simps)
qed

theorem suspension_after_750_idle_ticks_witness:
  "(0::int) \<le> 3 \<and>
   (sint no_msg_cnt_warn = 750 \<and>
    trace (udp_server_task sample_handler (replicate 750 NoData)
        (task_entry (replicate 9 0) sample_world 3)) =
      [Socket 3, Bind 3] @ concat (replicate (min 750 750) [Ioctl, VTaskDelay 20]) @
      (if (750::nat) < 750
       then StreamStop # concat (replicate (750 - 750) [Ioctl, VTaskDelay 20])
       else []) \<and>
    (is_stream_stop (suspension_check
        (udp_server_task sample_handler (replicate 750 NoData)
          (task_entry (replicate 9 0) sample_world 3))) \<longleftrightarrow> (750::nat) \<le> 750) \<and>
    world (suspension_check (udp_server_task sample_handler (replicate 750 NoData)
        (task_entry (replicate 9 0) sample_world 3))) =
      (if (750::nat) \<le> 750 then stream_stop sample_world else sample_world) \<and>
    stream_stops (trace (suspension_check
        (udp_server_task sample_handler (replicate 750 NoData)
          (task_entry (replicate 9 0) sample_world 3)))) =
      (if (750::nat) \<le> 750 then 1 else 0))"
proof -
  have h: "(0::int) \<le> 3" by simp
  show ?thesis
    by (rule conjI [OF h suspension_after_750_idle_ticks [OF h]])
qed

section \<open>Idle passes and the counter\<close>

text \<open>
  Claim C4, as amended. A pass of the inner loop that finds no data increments
  \<open>no_msg_cnt\<close> by exactly 1 only while the watchdog is active, that is while
  \<open>is_stream_stop\<close> is clear and the counter is still below \<open>no_msg_cnt_warn\<close>; in every
  other case, and so in the suspended state, the pass leaves the counter as it is.
\<close>

theorem idle_pass_count:
  "no_msg_cnt (loop_pass pr NoData s) =
     (if \<not> is_stream_stop s \<and> no_msg_cnt s <s no_msg_cnt_warn
      then no_msg_cnt s + 1 else no_msg_cnt s)"
  by (simp add: loop_pass_def suspension_check_def no_data_def Let_def word_sle_eq
      word_sless_alt)

theorem idle_pass_count_witness:
  "no_msg_cnt (loop_pass sample_handler NoData (task_entry (replicate 9 0) sample_world 3)) = 1"
  using idle_pass_count [of sample_handler "task_entry (replicate 9 0) sample_world 3"]
  by (simp add: entry_fresh no_msg_cnt_warn_750 word_sless_alt)

text \<open>
  Claim C4 as stated fails in the suspended state: after 751 passes without data the
  stream has been stopped with the counter at 750, and one more pass without data leaves
  the counter at 750.
\<close>

theorem idle_pass_count_counterexample:
  "is_stream_stop (udp_server_task sample_handler (replicate 751 NoData)
      (task_entry (replicate 9 0) sample_world 3)) \<and>
   no_msg_cnt (udp_server_task sample_handler (replicate 751 NoData)
      (task_entry (replicate 9 0) sample_world 3)) = 750 \<and>
   no_msg_cnt (loop_pass sample_handler NoData
      (udp_server_task sample_handler (replicate 751 NoData)
        (task_entry (replicate 9 0) sample_world 3))) = 750"
  unfolding run_751 by (simp add: idle_pass_suspended)

section \<open>One reply for each datagram\<close>

text \<open>
  Claim C5. Once the task has its socket, the replies it sends go, in order, to the
  source addresses of the datagrams it received, one reply for each datagram, and
  \<open>process_request\<close> is called once for each datagram. The pass that receives a datagram
  handles it alone and to the end: it calls \<open>recvfrom\<close> once, hands the buffer to
  \<open>process_request\<close> and sends one reply to the address \<open>recvfrom\<close> reported, so no
  request is put together from several datagrams.
\<close>

theorem one_reply_per_datagram:
  assumes "0 \<le> r"
  shows "map fst (replies (trace (udp_server_task pr evs (task_entry b0 w r)))) =
           map fst (received evs) \<and>
         length (requests (trace (udp_server_task pr evs (task_entry b0 w r)))) =
           length (received evs) \<and>
         trace (loop_pass pr (Datagram a payload)
                 (udp_server_task pr evs (task_entry b0 w r))) =
           trace (suspension_check (udp_server_task pr evs (task_entry b0 w r))) @
             [Ioctl,
              Recvfrom (sock (udp_server_task pr evs (task_entry b0 w r))) a
                (int (min (length payload) REQUEST_RESPONSE_BUF_SIZE)),
              ProcessRequest
                (take REQUEST_RESPONSE_BUF_SIZE payload @
                 drop (min (length payload) REQUEST_RESPONSE_BUF_SIZE)
                   (buf (udp_server_task pr evs (task_entry b0 w r)))),
              Sendto (sock (udp_server_task pr evs (task_entry b0 w r))) a
                (take REQUEST_RESPONSE_BUF_SIZE
                  (fst (pr (take REQUEST_RESPONSE_BUF_SIZE payload @
                            drop (min (length payload) REQUEST_RESPONSE_BUF_SIZE)
                              (buf (udp_server_task pr evs (task_entry b0 w r))))
                           (world (suspension_check
                              (udp_server_task pr evs (task_entry b0 w r)))))))]"
proof -
  have live: "\<not> deleted (task_entry b0 w r)"
    using assms by (simp add: entry_fresh)
  have tr0: "trace (task_entry b0 w r) = [Socket r, Bind r]"
    using assms by (simp add: entry_fresh)
  show ?thesis
    using run_reply_dests [OF live, of pr evs]
    by (simp add: tr0 data_pass Let_def)
qed

theorem one_reply_per_datagram_witness:
  "(0::int) \<le> 3 \<and>
   map fst (replies (trace (udp_server_task sample_handler
      [Datagram 7 [1, 2, 3], NoData, Datagram 8 [4, 5, 6, 7, 8, 9, 10, 11, 12, 13]]
      (task_entry [0, 0, 0, 0, 0, 0, 0, 0, 0] sample_world 3)))) = [7, 8]"
proof -
  have h: "(0::int) \<le> 3" by simp
  show ?thesis
    using h one_reply_per_datagram [OF h, of sample_handler
      "[Datagram 7 [1, 2, 3], NoData, Datagram 8 [4, 5, 6, 7, 8, 9, 10, 11, 12, 13]]"
      "[0, 0, 0, 0, 0, 0, 0, 0, 0]" sample_world]
    by simp
qed

section \<open>The frame size\<close>

text \<open>
  Claim C6. Requests and replies share one buffer of \<open>REQUEST_RESPONSE_BUF_SIZE\<close> bytes,
  which is 1 + 2 * 4 = 9: one opcode byte and two floats of four bytes. With a
  \<open>process_request\<close> that works in place, the buffer keeps that size, every buffer handed
  to \<open>process_request\<close> and every reply has exactly that size, and the reply to a
  datagram is the very buffer that received it, as \<open>process_request\<close> has rewritten it.
\<close>

theorem frames_have_fixed_size:
  assumes "in_place pr" "length b0 = REQUEST_RESPONSE_BUF_SIZE"
  shows "REQUEST_RESPONSE_BUF_SIZE = 1 + 2 * 4 \<and>
    length (buf (udp_server_task pr evs (task_entry b0 w r))) = REQUEST_RESPONSE_BUF_SIZE \<and>
    (\<forall>b \<in> set (requests (trace (udp_server_task pr evs (task_entry b0 w r)))).
       length b = REQUEST_RESPONSE_BUF_SIZE) \<and>
    (\<forall>m \<in> snd ` set (replies (trace (udp_server_task pr evs (task_entry b0 w r)))).
       length m = REQUEST_RESPONSE_BUF_SIZE) \<and>
    requests (trace (loop_pass pr (Datagram a payload)
        (udp_server_task pr evs (task_entry b0 w r)))) =
      requests (trace (udp_server_task pr evs (task_entry b0 w r))) @
        [take REQUEST_RESPONSE_BUF_SIZE payload @
         drop (min (length payload) REQUEST_RESPONSE_BUF_SIZE)
           (buf (udp_server_task pr evs (task_entry b0 w r)))] \<and>
    replies (trace (loop_pass pr (Datagram a payload)
        (udp_server_task pr evs (task_entry b0 w r)))) =
      replies (trace (udp_server_task pr evs (task_entry b0 w r))) @
        [(a, fst (pr (take REQUEST_RESPONSE_BUF_SIZE payload @
                      drop (min (length payload) REQUEST_RESPONSE_BUF_SIZE)
                        (buf (udp_server_task pr evs (task_entry b0 w r))))
                     (world (suspension_check
                        (udp_server_task pr evs (task_entry b0 w r))))))]"
proof -
  let ?R = "udp_server_task pr evs (task_entry b0 w r)"
  have b: "length (buf (task_entry b0 w r)) = REQUEST_RESPONSE_BUF_SIZE"
    using assms(2) by (simp add: entry_buf)
  have sizes: "length (buf ?R) = REQUEST_RESPONSE_BUF_SIZE \<and>
         (\<forall>b \<in> set (requests (trace ?R)). length b = REQUEST_RESPONSE_BUF_SIZE) \<and>
         (\<forall>m \<in> snd ` set (replies (trace ?R)). length m = REQUEST_RESPONSE_BUF_SIZE)"
    by (rule run_sizes [OF assms(1) b]) (simp_all add: entry_trace_quiet)
  have size: "REQUEST_RESPONSE_BUF_SIZE = 1 + 2 * 4"
    by (simp add: buf_size_9)
  note reply = pass_reply_whole [OF assms(1) conjunct1 [OF sizes], of a payload]
  show ?thesis
    using size sizes reply pass_requests(3) [of pr a payload ?R] by blast
qed

theorem frames_have_fixed_size_witness:
  "in_place sample_handler \<and>
   length [1, 1, 1, 1, 1, 1, 1, 1, 1 :: byte] = REQUEST_RESPONSE_BUF_SIZE \<and>
   replies (trace (loop_pass sample_handler (Datagram 8 [4, 5])
      (udp_server_task sample_handler [Datagram 7 [1, 2, 3], NoData]
        (task_entry [1, 1, 1, 1, 1, 1, 1, 1, 1] sample_world 3)))) =
     [(7, [1, 2, 3, 1, 1, 1, 1, 1, 1]), (8, [4, 5, 0, 0, 0, 0, 0, 0, 0])]"
proof -
  have h1: "in_place sample_handler"
    by (rule in_place_sample)
  have h2: "length [1, 1, 1, 1, 1, 1, 1, 1, 1 :: byte] = REQUEST_RESPONSE_BUF_SIZE"
    by (simp add: buf_size_9)
  show ?thesis
    using h1 h2 frames_have_fixed_size [OF h1 h2, of "[Datagram 7 [1, 2, 3], NoData]"
      sample_world 3 8 "[4, 5]"]
    by (simp add: task_eval)
qed

section \<open>A failing recvfrom\<close>

text \<open>
  Claim C7, as amended. When \<open>recvfrom\<close> fails in a running task, the socket is shut
  down and closed and \<open>socket\<close> is called again. The endpoint is recreated only if that
  call returns a descriptor: then \<open>bind\<close> is called on it and the task runs on with the
  new socket; if \<open>socket\<close> fails, the task ends with \<open>vTaskDelete\<close> and no endpoint is
  left. In both cases the teardown and the setup leave the outside world untouched, so
  the PID data is after the pass what it was before, and it stays so as long as no
  datagram is received.
\<close>

theorem transport_fault_keeps_pid_data:
  assumes "\<not> deleted (udp_server_task pr evs (task_entry b0 w r0))"
  shows "world (socket_setup r (socket_teardown s)) = world s \<and>
    pid_data (world (loop_pass pr (RecvError r)
        (udp_server_task pr evs (task_entry b0 w r0)))) =
      pid_data (world (udp_server_task pr evs (task_entry b0 w r0))) \<and>
    trace (loop_pass pr (RecvError r) (udp_server_task pr evs (task_entry b0 w r0))) =
      trace (suspension_check (udp_server_task pr evs (task_entry b0 w r0))) @
        [Ioctl,
         RecvfromFailed (sock (udp_server_task pr evs (task_entry b0 w r0))),
         Shutdown (sock (udp_server_task pr evs (task_entry b0 w r0))),
         Close (sock (udp_server_task pr evs (task_entry b0 w r0))),
         Socket r] @ (if r < 0 then [VTaskDelete] else [Bind r]) \<and>
    sock (loop_pass pr (RecvError r) (udp_server_task pr evs (task_entry b0 w r0))) = r \<and>
    (deleted (loop_pass pr (RecvError r) (udp_server_task pr evs (task_entry b0 w r0)))
       \<longleftrightarrow> r < 0) \<and>
    (received evs' = [] \<longrightarrow>
       pid_data (world (udp_server_task pr evs'
           (udp_server_task pr evs (task_entry b0 w r0)))) =
         pid_data (world (udp_server_task pr evs (task_entry b0 w r0))))"
proof -
  let ?R = "udp_server_task pr evs (task_entry b0 w r0)"
  have "deleted ?R \<or> 0 \<le> sock ?R"
    by (rule run_sock [OF entry_sock])
  then have open_sock: "sock ?R \<noteq> - 1"
    using assms by auto
  have 1: "world (socket_setup r (socket_teardown s)) = world s"
    by (simp add: socket_setup_def socket_teardown_def)
  have 2: "pid_data (world (loop_pass pr (RecvError r) ?R)) = pid_data (world ?R)"
    by (simp add: error_pass socket_setup_def socket_teardown_def suspension_check_keeps)
  have 3: "trace (loop_pass pr (RecvError r) ?R) =
      trace (suspension_check ?R) @
        [Ioctl, RecvfromFailed (sock ?R), Shutdown (sock ?R), Close (sock ?R), Socket r] @
        (if r < 0 then [VTaskDelete] else [Bind r])"
    using open_sock by (simp add: error_pass_trace)
  have 4: "sock (loop_pass pr (RecvError r) ?R) = r"
    by (simp add: error_pass socket_setup_def)
  have 5: "deleted (loop_pass pr (RecvError r) ?R) \<longleftrightarrow> r < 0"
    using assms by (simp add: pass_deleted)
  have 6: "pid_data (world (udp_server_task pr evs' ?R)) = pid_data (world ?R)"
    if "received evs' = []"
    using that by (rule run_without_request)
  show ?thesis
    using 1 2 3 4 5 6 by blast
qed

theorem transport_fault_keeps_pid_data_witness:
  "\<not> deleted (udp_server_task sample_handler [Datagram 7 [1, 2, 3]]
       (task_entry [0, 0, 0, 0, 0, 0, 0, 0, 0] sample_world 3)) \<and>
   pid_data (world (loop_pass sample_handler (RecvError 4)
       (udp_server_task sample_handler [Datagram 7 [1, 2, 3]]
         (task_entry [0, 0, 0, 0, 0, 0, 0, 0, 0] sample_world 3)))) =
     [1, 2, 3, 0, 0, 0, 0, 0, 0] \<and>
   sock (loop_pass sample_handler (RecvError 4)
       (udp_server_task sample_handler [Datagram 7 [1, 2, 3]]
         (task_entry [0, 0, 0, 0, 0, 0, 0, 0, 0] sample_world 3))) = 4 \<and>
   \<not> deleted (loop_pass sample_handler (RecvError 4)
       (udp_server_task sample_handler [Datagram 7 [1, 2, 3]]
         (task_entry [0, 0, 0, 0, 0, 0, 0, 0, 0] sample_world 3)))"
proof -
  have h: "\<not> deleted (udp_server_task sample_handler [Datagram 7 [1, 2, 3]]
       (task_entry [0, 0, 0, 0, 0, 0, 0, 0, 0] sample_world 3))"
    by (simp add: task_eval)
  have v: "pid_data (world (udp_server_task sample_handler [Datagram 7 [1, 2, 3]]
       (task_entry [0, 0, 0, 0, 0, 0, 0, 0, 0] sample_world 3))) = [1, 2, 3, 0, 0, 0, 0, 0, 0]"
    by (simp add: task_eval)
  show ?thesis
    using h v transport_fault_keeps_pid_data [OF h, where r = 4 and evs' = "[]"
      and s = "task_entry [0, 0, 0, 0, 0, 0, 0, 0, 0] sample_world 3"]
    by (simp add: task_eval)
qed

text \<open>
  Claim C7 as stated fails where \<open>socket\<close> fails after the teardown: the endpoint is not
  recreated, the task is deleted, and a datagram that arrives afterwards gets no reply.
\<close>

theorem transport_fault_counterexample:
  "\<not> deleted (task_entry [0, 0, 0, 0, 0, 0, 0, 0, 0] sample_world 3) \<and>
   deleted (loop_pass sample_handler (RecvError (- 1))
     (task_entry [0, 0, 0, 0, 0, 0, 0, 0, 0] sample_world 3)) \<and>
   trace (loop_pass sample_handler (RecvError (- 1))
     (task_entry [0, 0, 0, 0, 0, 0, 0, 0, 0] sample_world 3)) =
     [Socket 3, Bind 3, Ioctl, RecvfromFailed 3, Shutdown 3, Close 3,
      Socket (- 1), VTaskDelete] \<and>
   replies (trace (udp_server_task sample_handler
     [RecvError (- 1), Datagram 7 [1, 2, 3, 4, 5, 6, 7, 8, 9]]
     (task_entry [0, 0, 0, 0, 0, 0, 0, 0, 0] sample_world 3))) = []"
  by (simp add: task_eval)

section \<open>The integral accumulator\<close>

text \<open>
  Claim C8. With integral limits \<open>min \<le> max\<close>, every accepted step leaves the integral
  accumulator within the limits; starting within the limits, the accumulator is within
  them after every sequence of step calls, whatever the measurements, the gains and the
  values of \<open>dt\<close>, and the limits are unchanged. In particular no number of steps with one
  and the same measurement takes the accumulator above the upper limit.
\<close>

theorem integral_accumulator_within_limits:
  assumes "integral_min s \<le> integral_max s"
  shows "(step s measurement dt = Inr (s', output) \<longrightarrow>
            integral_min s' \<le> integral_accumulator s' \<and>
            integral_accumulator s' \<le> integral_max s') \<and>
         (integral_min s \<le> integral_accumulator s \<and>
          integral_accumulator s \<le> integral_max s \<longrightarrow>
            integral_min (step_calls s calls) = integral_min s \<and>
            integral_max (step_calls s calls) = integral_max s \<and>
            integral_min s \<le> integral_accumulator (step_calls s calls) \<and>
            integral_accumulator (step_calls s calls) \<le> integral_max s \<and>
            integral_accumulator (step_calls s (replicate n (measurement, dt))) \<le>
              integral_max s)"
  using step_within [OF assms] step_calls_within [OF assms] by blast

theorem integral_accumulator_within_limits_witness:
  "integral_min sample_controller \<le> integral_max sample_controller \<and>
   ki sample_controller \<noteq> 0 \<and>
   integral_accumulator (step_calls sample_controller [(0, 1), (0, 1), (0, 1)]) = 10 \<and>
   integral_accumulator (step_calls sample_controller [(0, 1), (0, 1), (0, 1)]) \<le>
     integral_max sample_controller"
proof -
  have h: "integral_min sample_controller \<le> integral_max sample_controller"
    by (simp add: sample_controller_def)
  have v: "integral_accumulator (step_calls sample_controller [(0, 1), (0, 1), (0, 1)]) = 10"
    by (simp add: sample_controller_def step_def clamp_def Let_def)
  show ?thesis
    using h v integral_accumulator_within_limits [OF h, where calls = "[(0, 1), (0, 1), (0, 1)]"]
    by (simp add: sample_controller_def)
qed

section \<open>The bound of the idle counter\<close>

text \<open>
  Claim C9. The idle counter \<open>no_msg_cnt\<close> is bounded: whenever the suspension check is
  evaluated, that is in the state in which any pass of the inner loop starts, whatever
  the socket has delivered so far and whatever \<open>process_request\<close> does, the counter read
  as a signed 32-bit integer lies between 0 and \<open>no_msg_cnt_warn\<close>, which is 750. The
  counter therefore never leaves the range of \<open>int\<close>.
\<close>

theorem no_msg_cnt_bounded:
  "0 \<le> sint (no_msg_cnt (udp_server_task pr evs (task_entry b0 w r))) \<and>
   sint (no_msg_cnt (udp_server_task pr evs (task_entry b0 w r))) \<le> sint no_msg_cnt_warn \<and>
   sint no_msg_cnt_warn = 750"
  using run_cnt_range [of "task_entry b0 w r" pr evs]
  by (simp add: entry_cnt no_msg_cnt_warn_750)

theorem no_msg_cnt_bounded_witness:
  "0 \<le> sint (no_msg_cnt (udp_server_task sample_handler
           [NoData, Datagram 7 [1, 2, 3], NoData, NoData] (task_entry (replicate 9 0) sample_world 3))) \<and>
   sint (no_msg_cnt (udp_server_task sample_handler
           [NoData, Datagram 7 [1, 2, 3], NoData, NoData] (task_entry (replicate 9 0) sample_world 3)))
     \<le> sint no_msg_cnt_warn \<and>
   sint no_msg_cnt_warn = 750"
  by (rule no_msg_cnt_bounded)

section \<open>What a request finds in the buffer\<close>

text \<open>
  Claim C10. The buffer is zeroed after each reply. The first datagram the task handles
  is laid over the uninitialised buffer \<open>b0\<close>, so the bytes of \<open>b0\<close> behind the datagram's
  length are handed to \<open>process_request\<close> with it. Every later datagram is handed over
  cut to the frame size and filled up with zero bytes: after the first request the
  buffer is all zero between requests, and the reply to a later datagram is computed
  from the zero-padded datagram and the outside world alone.
\<close>

theorem no_residue_after_first_request:
  assumes "in_place pr" "length b0 = REQUEST_RESPONSE_BUF_SIZE" "0 \<le> r"
  shows "requests (trace (udp_server_task pr evs (task_entry b0 w r))) =
           (case map snd (received evs) of
              [] \<Rightarrow> []
            | p # ps \<Rightarrow>
                (take REQUEST_RESPONSE_BUF_SIZE p @
                 drop (min (length p) REQUEST_RESPONSE_BUF_SIZE) b0) #
                map zero_padded ps) \<and>
         (received evs \<noteq> [] \<longrightarrow>
            buf (udp_server_task pr evs (task_entry b0 w r)) =
              replicate REQUEST_RESPONSE_BUF_SIZE 0 \<and>
            replies (trace (loop_pass pr (Datagram a payload)
                (udp_server_task pr evs (task_entry b0 w r)))) =
              replies (trace (udp_server_task pr evs (task_entry b0 w r))) @
                [(a, fst (pr (zero_padded payload)
                   (world (suspension_check
                      (udp_server_task pr evs (task_entry b0 w r))))))])"
proof -
  let ?R = "udp_server_task pr evs (task_entry b0 w r)"
  have live: "\<not> deleted (task_entry b0 w r)"
    using assms(3) by (simp add: entry_fresh)
  have len: "length (buf (task_entry b0 w r)) = REQUEST_RESPONSE_BUF_SIZE"
    using assms(2) by (simp add: entry_buf)
  note run = run_requests_first [OF assms(1) live len, of evs]
  have 1: "requests (trace ?R) =
           (case map snd (received evs) of
              [] \<Rightarrow> []
            | p # ps \<Rightarrow>
                (take REQUEST_RESPONSE_BUF_SIZE p @
                 drop (min (length p) REQUEST_RESPONSE_BUF_SIZE) b0) #
                map zero_padded ps)"
    using run by (simp add: entry_trace_quiet entry_buf cong: list.case_cong)
  have 2: "replies (trace (loop_pass pr (Datagram a payload) ?R)) =
              replies (trace ?R) @
                [(a, fst (pr (zero_padded payload) (world (suspension_check ?R))))]"
    if z: "buf ?R = replicate REQUEST_RESPONSE_BUF_SIZE 0"
  proof -
    have "length (buf ?R) = REQUEST_RESPONSE_BUF_SIZE"
      using z by simp
    from pass_reply_whole [OF assms(1) this, of a payload] show ?thesis
      by (simp add: z zeroed_request_simp)
  qed
  show ?thesis
    using 1 2 run by blast
qed

theorem no_residue_after_first_request_witness:
  "in_place sample_handler \<and>
   length [170, 170, 170, 170, 170, 170, 170, 170, 170 :: byte] = REQUEST_RESPONSE_BUF_SIZE \<and>
   (0::int) \<le> 3 \<and>
   requests (trace (udp_server_task sample_handler
       [Datagram 7 [1, 2, 3], NoData, Datagram 8 [4, 5], RecvError 4, Datagram 9 [6]]
       (task_entry [170, 170, 170, 170, 170, 170, 170, 170, 170] sample_world 3))) =
     [[1, 2, 3, 170, 170, 170, 170, 170, 170],
      [4, 5, 0, 0, 0, 0, 0, 0, 0],
      [6, 0, 0, 0, 0, 0, 0, 0, 0]]"
proof -
  have h1: "in_place sample_handler"
    by (rule in_place_sample)
  have h2: "length [170, 170, 170, 170, 170, 170, 170, 170, 170 :: byte] =
      REQUEST_RESPONSE_BUF_SIZE"
    by (simp add: buf_size_9)
  have h3: "(0::int) \<le> 3" by simp
  show ?thesis
    using h1 h2 no_residue_after_first_request [OF h1 h2 h3, of
      "[Datagram 7 [1, 2, 3], NoData, Datagram 8 [4, 5], RecvError 4, Datagram 9 [6]]"
      sample_world]
    by (simp add: zero_padded_def buf_size_9 replicate_numeral_unfold)
qed

end
